theory Spec2Isabelle
  imports Main
begin

section \<open>Events, generators and the response sink\<close>

text \<open>
  The development embeds \<^verbatim>\<open>internal/api/stream.go\<close>: the goroutines that
  \<^verbatim>\<open>contentStreamer.content\<close> starts, one per event generator, and the function
  \<^verbatim>\<open>stream\<close> that writes the events as server-sent events. The goroutines, the
  context and the timers are modelled by an interleaving semantics: the state holds the
  program point of every goroutine, and every action below is one step of one of them
  (or of the environment: cancellation, the passing of time).
\<close>

type_synonym duration = nat

datatype error = Error string

fun msg :: "error \<Rightarrow> string" where
  "msg (Error m) = m"

text \<open>\<^verbatim>\<open>type event struct { name string; data []byte }\<close>\<close>

record event =
  name :: string
  data :: string

text \<open>
  The interface \<^verbatim>\<open>eventGenerator\<close>. What an implementation answers is left open:
  \<open>Generate g c k\<close> is the outcome of the call made in the generator's cycle number \<open>k\<close>,
  with \<open>c\<close> telling whether the context was already cancelled at the call, and
  \<open>RunEvery g k\<close> is the interval the generator announces in that cycle.
\<close>

record eventGenerator =
  Generate :: "bool \<Rightarrow> nat \<Rightarrow> error + event"
  RunEvery :: "nat \<Rightarrow> duration"

text \<open>
  An \<^verbatim>\<open>http.ResponseWriter\<close> is modelled by what is done to it, in order. \<open>flusher\<close>
  tells whether the type assertion \<^verbatim>\<open>w.(http.Flusher)\<close> succeeds.
\<close>

datatype wop =
    SetHeader string string
  | WriteHeader nat
  | Write string
  | Flush

record responseWriter =
  flusher :: bool
  ops :: "wop list"

fun written :: "wop \<Rightarrow> string" where
  "written (Write bs) = bs"
| "written _ = []"

definition body :: "responseWriter \<Rightarrow> string" where
  "body rw = concat (map written (ops rw))"

fun is_output :: "wop \<Rightarrow> bool" where
  "is_output (Write bs) = True"
| "is_output Flush = True"
| "is_output _ = False"

definition StatusInternalServerError :: nat where
  "StatusInternalServerError = 500"

definition StatusServiceUnavailable :: nat where
  "StatusServiceUnavailable = 503"

text \<open>
  \<^verbatim>\<open>http.Error\<close> of the Go standard library: it sets the content type to plain text,
  forbids content sniffing, writes the status line and prints the message and a newline
  as the body.
\<close>

definition http_Error :: "responseWriter \<Rightarrow> string \<Rightarrow> nat \<Rightarrow> responseWriter" where
  "http_Error rw m code =
     rw\<lparr>ops := ops rw @
       [SetHeader ''Content-Type'' ''text/plain; charset=utf-8'',
        SetHeader ''X-Content-Type-Options'' ''nosniff'',
        WriteHeader code,
        Write (m @ ''\<newline>'')]\<rparr>"

section \<open>The function stream\<close>

text \<open>
  Lines 178 to 187: without a flusher the function answers with \<^verbatim>\<open>http.Error\<close> and
  returns; otherwise it sets the four headers and enters its loop. The second component
  tells whether the loop is entered.
\<close>

definition stream_headers :: "wop list" where
  "stream_headers =
     [SetHeader ''Content-Type'' ''text/event-stream'',
      SetHeader ''Cache-Control'' ''no-cache'',
      SetHeader ''Connection'' ''keep-alive'',
      SetHeader ''Access-Control-Allow-Origin'' ''*'']"

definition stream_start :: "responseWriter \<Rightarrow> responseWriter \<times> bool" where
  "stream_start rw =
     (if \<not> flusher rw
      then (http_Error rw ''server sent events are unsupported'' StatusInternalServerError, False)
      else (rw\<lparr>ops := ops rw @ stream_headers\<rparr>, True))"

text \<open>
  Lines 196 to 200, the body of the case \<^verbatim>\<open>e := <-ch\<close>: two calls of
  \<^verbatim>\<open>fmt.Fprintf\<close>, the first one only for a named event, and a flush.
\<close>

definition stream_event :: "event \<Rightarrow> wop list" where
  "stream_event e =
     (if name e \<noteq> [] then [Write (''event: '' @ name e @ ''\<newline>'')] else []) @
     [Write (''data: '' @ data e @ ''\<newline>\<newline>''), Flush]"

definition encode :: "event \<Rightarrow> string" where
  "encode e = concat (map written (stream_event e))"

section \<open>The goroutines of content\<close>

text \<open>
  A generator's goroutine (lines 130 to 161) is at its \<^verbatim>\<open>select\<close>, or at the send
  \<^verbatim>\<open>ch <- e\<close> with the event it has generated, or it has left its loop. \<open>timer\<close> is
  \<open>Some d\<close> for a timer that fires in \<open>d\<close> units of time (its channel is ready at
  \<open>Some 0\<close>) and \<open>None\<close> once the value has been received and the timer has not
  been reset. \<open>cycle\<close> counts the cycles that the goroutine has finished, by a send or
  by an error.
\<close>

datatype tpc = AtSelect | AtSend event | Exited

record task =
  eg :: eventGenerator
  timer :: "duration option"
  cycle :: nat
  loc :: tpc

text \<open>
  The goroutine that runs \<^verbatim>\<open>content\<close> is before \<^verbatim>\<open>stream\<close>'s check of the
  flusher, in \<^verbatim>\<open>stream\<close>'s loop, at \<^verbatim>\<open>wg.Wait()\<close>, or it has returned.
\<close>

datatype mpc = InStream | InStreamLoop | AtWait | Returned "error option"

record state =
  ctx_done :: bool
  ch :: "event list"
  closed :: bool
  panicked :: bool
  tasks :: "task list"
  logged :: "string list"
  sink :: responseWriter
  main :: mpc

text \<open>
  \<^verbatim>\<open>contentStreamer\<close>. A slice, a function and an interface value may each be
  \<^verbatim>\<open>nil\<close>, which is \<open>None\<close> here; an empty slice that is not \<^verbatim>\<open>nil\<close> is
  \<open>Some []\<close>. The stream function, when there is one, is \<^verbatim>\<open>stream\<close>.
\<close>

record contentStreamer =
  eventGenerators :: "eventGenerator list option"
  w :: responseWriter
  streamFn :: "unit option"
  logger :: "unit option"

definition spawn :: "eventGenerator \<Rightarrow> task" where
  "spawn g = \<lparr>eg = g, timer = Some 0, cycle = 0, loc = AtSelect\<rparr>"

text \<open>
  Lines 112 to 162 of \<^verbatim>\<open>content\<close>: the channel, the three checks in their order,
  and one goroutine per generator, each with a timer of duration 0. The result is the
  state in which the call of the stream function begins, or the state in which
  \<^verbatim>\<open>content\<close> has returned an error.
\<close>

definition content :: "contentStreamer \<Rightarrow> state" where
  "content cs =
     (let s0 = \<lparr>ctx_done = False, ch = [], closed = False, panicked = False, tasks = [],
                logged = [], sink = w cs, main = InStream\<rparr>
      in case eventGenerators cs of
           None \<Rightarrow> s0\<lparr>main := Returned (Some (Error ''event generators are not configured''))\<rparr>
         | Some egs \<Rightarrow>
             if streamFn cs = None
             then s0\<lparr>main := Returned (Some (Error ''stream function is not configured''))\<rparr>
             else if logger cs = None
             then s0\<lparr>main := Returned (Some (Error ''logger is not configured''))\<rparr>
             else s0\<lparr>tasks := map spawn egs\<rparr>)"

subsection \<open>Steps\<close>

text \<open>
  An action is one step of one goroutine, or of the environment (\<open>Cancel\<close> cancels
  the context, \<open>Tick\<close> lets one unit of time pass). A step is \<open>None\<close> when the
  goroutine cannot take it in the state: a receive on an empty channel, a send on a full
  one, a timer that has not fired. When several cases of a \<^verbatim>\<open>select\<close> are ready, Go
  takes any one of them, and so several actions have a step in the same state. A run is
  a list of actions, each with a step.
\<close>

datatype action =
    Cancel
  | Tick
  | TaskDone nat
  | TaskTimer nat
  | TaskSend nat
  | StreamStart
  | StreamDone
  | StreamRecv
  | WaitClose

text \<open>One unit of time passes for a timer.\<close>

definition tick :: "task \<Rightarrow> task" where
  "tick t = (case timer t of Some (Suc d) \<Rightarrow> t\<lparr>timer := Some d\<rparr> | _ \<Rightarrow> t)"

text \<open>Line 137: the select of goroutine \<open>i\<close> takes \<^verbatim>\<open><-ctx.Done()\<close>.\<close>

definition task_done :: "nat \<Rightarrow> state \<Rightarrow> state option" where
  "task_done i s =
     (if i < length (tasks s) \<and> loc (tasks s ! i) = AtSelect \<and> ctx_done s
      then Some (s\<lparr>tasks := (tasks s)[i := (tasks s ! i)\<lparr>loc := Exited\<rparr>]\<rparr>)
      else None)"

text \<open>
  Lines 139 to 148: the select of goroutine \<open>i\<close> takes \<^verbatim>\<open><-timer.C\<close> and calls
  \<^verbatim>\<open>Generate\<close>. On an error the message is logged and \<^verbatim>\<open>break\<close> leaves the select:
  the loop goes on, and the timer has not been reset.
\<close>

definition task_timer :: "nat \<Rightarrow> state \<Rightarrow> state option" where
  "task_timer i s =
     (if i < length (tasks s) \<and> loc (tasks s ! i) = AtSelect \<and> timer (tasks s ! i) = Some 0
      then
        (let t = tasks s ! i in
         case Generate (eg t) (ctx_done s) (cycle t) of
           Inl err \<Rightarrow>
             Some (s\<lparr>logged := logged s @ [''event generator error: '' @ msg err],
                     tasks := (tasks s)[i := t\<lparr>timer := None, cycle := Suc (cycle t)\<rparr>]\<rparr>)
         | Inr e \<Rightarrow>
             Some (s\<lparr>tasks := (tasks s)[i := t\<lparr>timer := None, loc := AtSend e\<rparr>]\<rparr>))
      else None)"

text \<open>
  Lines 150 to 157: the send \<^verbatim>\<open>ch <- e\<close> on the channel of capacity 1, which panics
  on a closed channel and cannot proceed on a full one, then \<^verbatim>\<open>RunEvery\<close>.
\<close>

definition task_send :: "nat \<Rightarrow> state \<Rightarrow> state option" where
  "task_send i s =
     (if i < length (tasks s) then
        (let t = tasks s ! i in
         case loc t of
           AtSend e \<Rightarrow>
             if closed s then Some (s\<lparr>panicked := True\<rparr>)
             else if length (ch s) < 1 then
               (let nextTick = RunEvery (eg t) (cycle t);
                    t' = (if nextTick = 0 then t\<lparr>loc := Exited\<rparr>
                          else t\<lparr>timer := Some nextTick, loc := AtSelect\<rparr>)
                in Some (s\<lparr>ch := ch s @ [e],
                           tasks := (tasks s)[i := t'\<lparr>cycle := Suc (cycle t)\<rparr>]\<rparr>))
             else None
         | _ \<Rightarrow> None)
      else None)"

text \<open>
  Line 164: \<^verbatim>\<open>content\<close> calls the stream function, which runs in the goroutine of
  \<^verbatim>\<open>content\<close>; when \<^verbatim>\<open>stream\<close> returns at once, \<^verbatim>\<open>content\<close> is at
  \<^verbatim>\<open>wg.Wait()\<close>.
\<close>

definition stream_begin :: "state \<Rightarrow> state option" where
  "stream_begin s =
     (if main s = InStream
      then (case stream_start (sink s) of
              (rw, ok) \<Rightarrow> Some (s\<lparr>sink := rw, main := (if ok then InStreamLoop else AtWait)\<rparr>))
      else None)"

text \<open>Line 193: the select of \<^verbatim>\<open>stream\<close> takes \<^verbatim>\<open><-ctx.Done()\<close>.\<close>

definition stream_done :: "state \<Rightarrow> state option" where
  "stream_done s =
     (if main s = InStreamLoop \<and> ctx_done s then Some (s\<lparr>main := AtWait\<rparr>) else None)"

text \<open>Line 195: the select of \<^verbatim>\<open>stream\<close> takes \<^verbatim>\<open>e := <-ch\<close>.\<close>

definition stream_recv :: "state \<Rightarrow> state option" where
  "stream_recv s =
     (if main s = InStreamLoop then
        (case ch s of
           [] \<Rightarrow> None
         | e # es \<Rightarrow>
             Some (s\<lparr>ch := es, sink := (sink s)\<lparr>ops := ops (sink s) @ stream_event e\<rparr>\<rparr>))
      else None)"

text \<open>Lines 166 to 169: \<^verbatim>\<open>wg.Wait()\<close> returns once every goroutine has left its loop.\<close>

definition wait_close :: "state \<Rightarrow> state option" where
  "wait_close s =
     (if main s = AtWait \<and> list_all (\<lambda>t. loc t = Exited) (tasks s)
      then Some (s\<lparr>closed := True, main := Returned None\<rparr>)
      else None)"

fun step :: "action \<Rightarrow> state \<Rightarrow> state option" where
  "step Cancel s = (if panicked s then None else Some (s\<lparr>ctx_done := True\<rparr>))"
| "step Tick s = (if panicked s then None else Some (s\<lparr>tasks := map tick (tasks s)\<rparr>))"
| "step (TaskDone i) s = (if panicked s then None else task_done i s)"
| "step (TaskTimer i) s = (if panicked s then None else task_timer i s)"
| "step (TaskSend i) s = (if panicked s then None else task_send i s)"
| "step StreamStart s = (if panicked s then None else stream_begin s)"
| "step StreamDone s = (if panicked s then None else stream_done s)"
| "step StreamRecv s = (if panicked s then None else stream_recv s)"
| "step WaitClose s = (if panicked s then None else wait_close s)"

fun run :: "action list \<Rightarrow> state \<Rightarrow> state option" where
  "run [] s = Some s"
| "run (a # as) s = (case step a s of None \<Rightarrow> None | Some s' \<Rightarrow> run as s')"

section \<open>Notions used by the properties\<close>

text \<open>
  The framing rule of the event-stream format: a blank line ends a record. \<open>blank_line\<close>
  tells whether two newline bytes follow each other somewhere in a text, and a record has
  a premature boundary when that already happens before its last byte, that is, before
  the blank line that \<^verbatim>\<open>stream\<close> writes at the end of the record.
\<close>

fun blank_line :: "string \<Rightarrow> bool" where
  "blank_line (a # b # cs) = ((a = CHR 0x0A \<and> b = CHR 0x0A) \<or> blank_line (b # cs))"
| "blank_line _ = False"

definition premature_boundary :: "string \<Rightarrow> bool" where
  "premature_boundary r = blank_line (butlast r)"

definition config_ok :: "contentStreamer \<Rightarrow> bool" where
  "config_ok cs \<longleftrightarrow> eventGenerators cs \<noteq> None \<and> streamFn cs \<noteq> None \<and> logger cs \<noteq> None"

definition unsupported :: string where
  "unsupported = ''server sent events are unsupported''"

subsection \<open>Invariants of the steps\<close>

text \<open>The channel is closed only by the return of \<^verbatim>\<open>content\<close>, after every goroutine has left.\<close>

definition inv_closed :: "state \<Rightarrow> bool" where
  "inv_closed s \<longleftrightarrow> \<not> panicked s \<and> (closed s \<longleftrightarrow> main s = Returned None) \<and>
     (closed s \<longrightarrow> list_all (\<lambda>t. loc t = Exited) (tasks s))"

text \<open>An error is returned by the three checks only, before anything is started.\<close>

definition inv_ret :: "contentStreamer \<Rightarrow> state \<Rightarrow> bool" where
  "inv_ret cs s \<longleftrightarrow>
     (case main s of
        Returned (Some err) \<Rightarrow> main (content cs) = Returned (Some err) \<and> tasks s = [] \<and>
          sink s = w cs \<and> ch s = []
      | _ \<Rightarrow> main (content cs) = InStream)"

text \<open>What a sink with a flusher has received: nothing, or the headers and then output only.\<close>

definition inv_hdr :: "contentStreamer \<Rightarrow> state \<Rightarrow> bool" where
  "inv_hdr cs s \<longleftrightarrow> flusher (sink s) \<and>
     (if main s = InStream \<or> (\<exists>e. main s = Returned (Some e))
      then ops (sink s) = ops (w cs)
      else \<exists>rest. list_all is_output rest \<and> ops (sink s) = ops (w cs) @ stream_headers @ rest)"

text \<open>What a sink without a flusher has received: nothing, or the answer of \<^verbatim>\<open>http.Error\<close>.\<close>

definition inv_nofl :: "contentStreamer \<Rightarrow> state \<Rightarrow> bool" where
  "inv_nofl cs s \<longleftrightarrow> \<not> flusher (sink s) \<and> main s \<noteq> InStreamLoop \<and>
     sink s = (if main s = AtWait \<or> main s = Returned None
               then http_Error (w cs) unsupported StatusInternalServerError else w cs)"

text \<open>Goroutine \<open>i\<close> has finished \<open>k\<close> cycles and its timer is not armed.\<close>

definition disarmed :: "nat \<Rightarrow> nat \<Rightarrow> state \<Rightarrow> bool" where
  "disarmed i k s \<longleftrightarrow> i < length (tasks s) \<and> timer (tasks s ! i) = None \<and>
     cycle (tasks s ! i) = k \<and> (loc (tasks s ! i) = AtSelect \<or> loc (tasks s ! i) = Exited)"

text \<open>
  After the cancellation and the return of \<^verbatim>\<open>stream\<close>, the channel is full and
  goroutine \<open>i\<close> is at its send.
\<close>

definition stuck :: "nat \<Rightarrow> event \<Rightarrow> state \<Rightarrow> bool" where
  "stuck i e s \<longleftrightarrow> ctx_done s \<and> main s = AtWait \<and> ch s = [e] \<and> \<not> closed s \<and>
     i < length (tasks s) \<and> loc (tasks s ! i) = AtSend e"

subsection \<open>Generators, sinks and states of the examples\<close>

definition tick_event :: event where
  "tick_event = \<lparr>name = [], data = ''{}''\<rparr>"

definition flush_sink :: responseWriter where
  "flush_sink = \<lparr>flusher = True, ops = []\<rparr>"

definition plain_sink :: responseWriter where
  "plain_sink = \<lparr>flusher = False, ops = []\<rparr>"

text \<open>A generator that succeeds every 5 units of time, and one that runs once.\<close>

definition periodic :: eventGenerator where
  "periodic = \<lparr>Generate = (\<lambda>c k. Inr tick_event), RunEvery = (\<lambda>k. 5)\<rparr>"

definition once :: eventGenerator where
  "once = \<lparr>Generate = (\<lambda>c k. Inr tick_event), RunEvery = (\<lambda>k. 0)\<rparr>"

text \<open>A generator whose first call fails and whose later calls would succeed.\<close>

definition failing_first :: eventGenerator where
  "failing_first =
     \<lparr>Generate = (\<lambda>c k. if k = 0 then Inl (Error ''boom'') else Inr tick_event),
      RunEvery = (\<lambda>k. 5)\<rparr>"

text \<open>A generator with interval 0 whose calls fail.\<close>

definition failing_once :: eventGenerator where
  "failing_once = \<lparr>Generate = (\<lambda>c k. Inl (Error ''boom'')), RunEvery = (\<lambda>k. 0)\<rparr>"

definition streamer :: "eventGenerator list \<Rightarrow> responseWriter \<Rightarrow> contentStreamer" where
  "streamer egs rw = \<lparr>eventGenerators = Some egs, w = rw, streamFn = Some (), logger = Some ()\<rparr>"

definition unconfigured :: contentStreamer where
  "unconfigured = \<lparr>eventGenerators = None, w = flush_sink, streamFn = Some (), logger = None\<rparr>"

definition after_error :: state where
  "after_error =
     \<lparr>ctx_done = False, ch = [], closed = False, panicked = False,
      tasks = [\<lparr>eg = failing_first, timer = None, cycle = 1, loc = AtSelect\<rparr>],
      logged = [''event generator error: boom''], sink = flush_sink, main = InStream\<rparr>"

definition failed_once_state :: state where
  "failed_once_state =
     \<lparr>ctx_done = False, ch = [], closed = False, panicked = False,
      tasks = [\<lparr>eg = failing_once, timer = None, cycle = 1, loc = AtSelect\<rparr>],
      logged = [''event generator error: boom''], sink = flush_sink, main = InStream\<rparr>"

text \<open>The failing generator with interval 0 waits at its select until the cancellation.\<close>

definition waiting :: "state \<Rightarrow> bool" where
  "waiting s \<longleftrightarrow> (\<exists>t. tasks s = [t] \<and> eg t = failing_once \<and>
     (loc t = AtSelect \<or> loc t = Exited \<and> ctx_done s) \<and> (0 < cycle t \<longrightarrow> timer t = None))
     \<and> flusher (sink s) \<and> (main s = InStream \<or> main s = InStreamLoop \<or> ctx_done s)"

definition deadlocked :: state where
  "deadlocked =
     \<lparr>ctx_done = True, ch = [tick_event], closed = False, panicked = False,
      tasks = [\<lparr>eg = periodic, timer = Some 5, cycle = 1, loc = AtSelect\<rparr>,
               \<lparr>eg = periodic, timer = None, cycle = 0, loc = AtSend tick_event\<rparr>],
      logged = [], sink = flush_sink\<lparr>ops := stream_headers\<rparr>, main = AtWait\<rparr>"

definition pending :: state where
  "pending =
     \<lparr>ctx_done = True, ch = [tick_event], closed = False, panicked = False,
      tasks = [\<lparr>eg = once, timer = None, cycle = 1, loc = Exited\<rparr>],
      logged = [], sink = flush_sink\<lparr>ops := stream_headers\<rparr>, main = InStreamLoop\<rparr>"

definition delivered :: state where
  "delivered =
     \<lparr>ctx_done = False, ch = [], closed = False, panicked = False,
      tasks = [\<lparr>eg = once, timer = None, cycle = 1, loc = Exited\<rparr>],
      logged = [], sink = flush_sink\<lparr>ops := stream_headers @ stream_event tick_event\<rparr>,
      main = InStreamLoop\<rparr>"

definition shut_down :: state where
  "shut_down = delivered\<lparr>ctx_done := True, closed := True, main := Returned None\<rparr>"

definition refused :: state where
  "refused =
     \<lparr>ctx_done = False, ch = [], closed = False, panicked = False,
      tasks = [\<lparr>eg = once, timer = None, cycle = 0, loc = AtSend tick_event\<rparr>],
      logged = [],
      sink = http_Error plain_sink ''server sent events are unsupported'' 500,
      main = AtWait\<rparr>"

section \<open>Runs and their invariants\<close>

lemma run_append: "run (as @ bs) s = (case run as s of None \<Rightarrow> None | Some s' \<Rightarrow> run bs s')"
  by (induction as arbitrary: s) (auto split: option.splits)

lemma run_invariant:
  assumes "run as s = Some s'" and "P s"
    and "\<And>a s s'. P s \<Longrightarrow> step a s = Some s' \<Longrightarrow> P s'"
  shows "P s'"
  using assms(1,2)
proof (induction as arbitrary: s)
  case Nil
  then show ?case by simp
next
  case (Cons a as)
  then show ?case by (auto split: option.splits intro: assms(3))
qed

lemmas step_defs = task_done_def task_timer_def task_send_def stream_begin_def
  stream_done_def stream_recv_def wait_close_def stream_start_def

lemma tick_simps [simp]: "loc (tick t) = loc t" "eg (tick t) = eg t" "cycle (tick t) = cycle t"
  by (auto simp: tick_def split: option.splits nat.splits)

lemma timer_tick_None [simp]: "timer t = None \<Longrightarrow> timer (tick t) = None"
  by (simp add: tick_def)

lemma flusher_http_Error [simp]: "flusher (http_Error rw m c) = flusher rw"
  by (simp add: http_Error_def)

text \<open>
  The bytes of a record, as \<^verbatim>\<open>stream\<close> writes them.
\<close>

lemma encode_eq:
  "encode e = (if name e = [] then [] else ''event: '' @ name e @ ''\<newline>'') @
     ''data: '' @ data e @ ''\<newline>\<newline>''"
  by (simp add: encode_def stream_event_def)

lemma blank_line_skip: "a \<noteq> CHR 0x0A \<Longrightarrow> blank_line (a # q) = blank_line q"
  by (cases q) auto

lemma blank_line_append:
  "y \<noteq> CHR 0x0A \<Longrightarrow> blank_line (xs @ y # ys) = (blank_line xs \<or> blank_line ys)"
proof (induction xs)
  case Nil
  then show ?case by (simp add: blank_line_skip)
next
  case (Cons a xs)
  then show ?case by (cases xs) (auto simp: blank_line_skip)
qed

lemma premature_encode:
  "premature_boundary (encode e) =
     (blank_line (name e @ ''\<newline>'') \<or> blank_line (data e @ ''\<newline>''))"
proof (cases "name e = []")
  case True
  have "butlast (''data: '' @ data e @ ''\<newline>\<newline>'') = ''data: '' @ data e @ ''\<newline>''"
    by (simp add: butlast_append)
  then show ?thesis using True
    by (simp add: premature_boundary_def encode_eq blank_line_skip)
next
  case False
  have "butlast (encode e) = (''event: '' @ name e @ ''\<newline>'') @ CHR ''d'' # (''ata: '' @ data e @ ''\<newline>'')"
    using False by (simp add: encode_eq butlast_append)
  then have "blank_line (butlast (encode e)) =
      blank_line ((''event: '' @ name e @ ''\<newline>'') @ CHR ''d'' # (''ata: '' @ data e @ ''\<newline>''))"
    by (simp only:)
  also have "\<dots> = (blank_line (''event: '' @ name e @ ''\<newline>'') \<or> blank_line (''ata: '' @ data e @ ''\<newline>''))"
    by (rule blank_line_append) simp
  also have "\<dots> = (blank_line (name e @ ''\<newline>'') \<or> blank_line (data e @ ''\<newline>''))"
    by (simp add: blank_line_skip)
  finally show ?thesis by (simp only: premature_boundary_def)
qed

lemma list_all_stream_event: "list_all is_output (stream_event e)"
  by (simp add: stream_event_def)

subsection \<open>Every step keeps the invariants\<close>

lemma inv_closed_step: "inv_closed s \<Longrightarrow> step a s = Some s' \<Longrightarrow> inv_closed s'"
  by (cases a)
     (auto simp: inv_closed_def step_defs Let_def list_all_iff
        split: if_splits sum.splits tpc.splits list.splits prod.splits
        dest!: set_update_subset_insert[THEN subsetD])

lemma inv_closed_content: "inv_closed (content cs)"
  by (simp add: inv_closed_def content_def Let_def split: option.splits)

lemma inv_ret_step: "inv_ret cs s \<Longrightarrow> step a s = Some s' \<Longrightarrow> inv_ret cs s'"
  by (cases a)
     (auto simp: inv_ret_def step_defs Let_def
        split: if_splits sum.splits tpc.splits list.splits prod.splits mpc.splits option.splits)

lemma inv_ret_content: "inv_ret cs (content cs)"
  by (simp add: inv_ret_def content_def Let_def split: option.splits)

lemma inv_hdr_step: "inv_hdr cs s \<Longrightarrow> step a s = Some s' \<Longrightarrow> inv_hdr cs s'"
proof (cases a)
  case StreamRecv
  assume i: "inv_hdr cs s" and st: "step a s = Some s'"
  from st StreamRecv obtain e es where m: "main s = InStreamLoop" and c: "ch s = e # es"
    and s': "s' = s\<lparr>ch := es, sink := (sink s)\<lparr>ops := ops (sink s) @ stream_event e\<rparr>\<rparr>"
    by (auto simp: stream_recv_def split: if_splits list.splits)
  from i m obtain rest where r: "list_all is_output rest"
    "ops (sink s) = ops (w cs) @ stream_headers @ rest" and f: "flusher (sink s)"
    by (auto simp: inv_hdr_def)
  have "list_all is_output (rest @ stream_event e)"
    by (simp add: r(1) list_all_stream_event)
  moreover have "ops (sink s') = ops (w cs) @ stream_headers @ (rest @ stream_event e)"
    by (simp add: s' r(2))
  moreover have "main s' = InStreamLoop" "flusher (sink s')"
    using m f by (simp_all add: s')
  ultimately show ?thesis unfolding inv_hdr_def by auto
next
  case StreamStart
  assume i: "inv_hdr cs s" and st: "step a s = Some s'"
  with StreamStart have "ops (sink s') = ops (w cs) @ stream_headers @ []" "main s' = InStreamLoop"
    "flusher (sink s')"
    by (auto simp: inv_hdr_def step_defs split: if_splits)
  then show ?thesis unfolding inv_hdr_def by (auto intro: exI[of _ "[]"])
qed (auto simp: inv_hdr_def step_defs Let_def
        split: if_splits sum.splits tpc.splits list.splits prod.splits)

lemma inv_hdr_content: "flusher (w cs) \<Longrightarrow> inv_hdr cs (content cs)"
  by (simp add: inv_hdr_def content_def Let_def split: option.splits)

lemma inv_nofl_step: "inv_nofl cs s \<Longrightarrow> step a s = Some s' \<Longrightarrow> inv_nofl cs s'"
  by (cases a)
     (auto simp: inv_nofl_def step_defs Let_def unsupported_def
        split: if_splits sum.splits tpc.splits list.splits prod.splits)

lemma inv_nofl_content: "\<not> flusher (w cs) \<Longrightarrow> inv_nofl cs (content cs)"
  by (simp add: inv_nofl_def content_def Let_def split: option.splits)

lemma disarmed_step: "disarmed i k s \<Longrightarrow> step a s = Some s' \<Longrightarrow> disarmed i k s'"
  by (cases a)
     (auto simp: disarmed_def step_defs Let_def nth_list_update
        split: if_splits sum.splits tpc.splits list.splits prod.splits)

lemma waiting_step: "waiting s \<Longrightarrow> step a s = Some s' \<Longrightarrow> waiting s'"
  by (cases a)
     (auto simp: waiting_def step_defs Let_def failing_once_def
        split: if_splits sum.splits tpc.splits list.splits prod.splits)

lemma waiting_content: "waiting (content (streamer [failing_once] flush_sink))"
  by (simp add: waiting_def content_def streamer_def spawn_def flush_sink_def)

lemma stuck_step: "stuck i e s \<Longrightarrow> step a s = Some s' \<Longrightarrow> stuck i e s'"
  by (cases a)
     (auto simp: stuck_def step_defs Let_def nth_list_update list_all_iff
        split: if_splits sum.splits tpc.splits list.splits prod.splits dest: nth_mem)

subsection \<open>The runs of the examples\<close>

lemma after_error_step:
  "step (TaskTimer 0) (content (streamer [failing_first] flush_sink)) = Some after_error"
  by (simp add: content_def streamer_def task_timer_def spawn_def failing_first_def after_error_def)

lemma after_error_ticks: "run [Tick, Tick, Tick, Tick, Tick] after_error = Some after_error"
  by (simp add: after_error_def tick_def)

lemma failed_once_run:
  "run [TaskTimer 0, Tick] (content (streamer [failing_once] flush_sink)) = Some failed_once_state"
  by (simp add: content_def streamer_def task_timer_def spawn_def failing_once_def
      failed_once_state_def tick_def)

lemma deadlocked_run:
  "run [StreamStart, TaskTimer 0, TaskTimer 1, Cancel, StreamDone, TaskSend 0]
     (content (streamer [periodic, periodic] flush_sink)) = Some deadlocked"
  by (simp add: content_def streamer_def step_defs spawn_def periodic_def deadlocked_def
      flush_sink_def)

lemma pending_run:
  "run [TaskTimer 0, TaskSend 0, Cancel, StreamStart] (content (streamer [once] flush_sink)) =
     Some pending"
  by (simp add: content_def streamer_def step_defs spawn_def once_def pending_def flush_sink_def)

lemma delivered_run:
  "run [StreamStart, TaskTimer 0, TaskSend 0, StreamRecv] (content (streamer [once] flush_sink)) =
     Some delivered"
  by (simp add: content_def streamer_def step_defs spawn_def once_def delivered_def flush_sink_def)

lemma shut_down_run: "run [Cancel, StreamDone, WaitClose] delivered = Some shut_down"
  by (simp add: step_defs delivered_def shut_down_def)

lemma refused_run:
  "run [StreamStart, TaskTimer 0] (content (streamer [once] plain_sink)) = Some refused"
  by (simp add: content_def streamer_def step_defs spawn_def once_def refused_def plain_sink_def
      StatusInternalServerError_def)

text \<open>
  The cycle of a generator that succeeds: the first call of \<^verbatim>\<open>Generate\<close> needs no
  tick, and after the send the goroutine leaves for interval 0 and resets its timer to
  the interval otherwise.
\<close>

lemma first_generation_immediate:
  "config_ok cs \<Longrightarrow> eventGenerators cs = Some egs \<Longrightarrow> i < length egs \<Longrightarrow>
     step (TaskTimer i) (content cs) \<noteq> None"
  by (auto simp: config_ok_def content_def task_timer_def spawn_def Let_def split: sum.splits)

lemma send_then_interval:
  assumes "i < length (tasks s)" and "loc (tasks s ! i) = AtSend e" and "ch s = []"
    and "\<not> closed s" and "\<not> panicked s"
  shows "\<exists>s'. step (TaskSend i) s = Some s' \<and> ch s' = [e] \<and>
     (if RunEvery (eg (tasks s ! i)) (cycle (tasks s ! i)) = 0
      then loc (tasks s' ! i) = Exited
      else loc (tasks s' ! i) = AtSelect \<and>
           timer (tasks s' ! i) = Some (RunEvery (eg (tasks s ! i)) (cycle (tasks s ! i))))"
  using assms by (simp add: task_send_def Let_def)

section \<open>The properties\<close>

subsection \<open>C1: a generation error\<close>

text \<open>
  C1 says that after a call of \<^verbatim>\<open>Generate\<close> that returns an error the task logs
  the error, pushes no event, and re-arms its timer as on success. The code does the first
  two and not the third: \<^verbatim>\<open>break\<close> leaves the select before \<^verbatim>\<open>timer.Reset\<close>.
  For every generator and every state, after a step in which \<^verbatim>\<open>Generate\<close> fails the
  channel is unchanged and the message is logged, and in every state that any further run
  reaches the timer of this goroutine is still not armed, its cycle count has not moved,
  and its timer case cannot be taken: no later cycle of this generator runs.
\<close>

theorem C1_error_disarms_timer:
  assumes "step (TaskTimer i) s = Some s1"
    and "Generate (eg (tasks s ! i)) (ctx_done s) (cycle (tasks s ! i)) = Inl err"
    and "run as s1 = Some s2"
  shows "ch s1 = ch s \<and> logged s1 = logged s @ [''event generator error: '' @ msg err]
    \<and> timer (tasks s2 ! i) = None \<and> cycle (tasks s2 ! i) = Suc (cycle (tasks s ! i))
    \<and> step (TaskTimer i) s2 = None"
proof -
  from assms(1,2) have 1: "ch s1 = ch s" "logged s1 = logged s @ [''event generator error: '' @ msg err]"
    and d: "disarmed i (Suc (cycle (tasks s ! i))) s1"
    by (auto simp: task_timer_def disarmed_def Let_def split: if_splits)
  from assms(3) d have "disarmed i (Suc (cycle (tasks s ! i))) s2"
    by (rule run_invariant) (rule disarmed_step)
  then have "timer (tasks s2 ! i) = None" "cycle (tasks s2 ! i) = Suc (cycle (tasks s ! i))"
    "step (TaskTimer i) s2 = None"
    by (simp_all add: disarmed_def task_timer_def)
  with 1 show ?thesis by simp
qed

text \<open>
  The generator \<open>failing_first\<close> fails once, announces an interval of 5 and would
  succeed from its second call on; five ticks after the failure its timer case is still
  not enabled.
\<close>

theorem C1_error_disarms_timer_witness:
  "step (TaskTimer 0) (content (streamer [failing_first] flush_sink)) = Some after_error
   \<and> Generate failing_first False 0 = Inl (Error ''boom'')
   \<and> RunEvery failing_first 0 = 5
   \<and> run [Tick, Tick, Tick, Tick, Tick] after_error = Some after_error
   \<and> timer (tasks after_error ! 0) = None
   \<and> step (TaskTimer 0) after_error = None"
proof -
  have g: "Generate (eg (tasks (content (streamer [failing_first] flush_sink)) ! 0))
      (ctx_done (content (streamer [failing_first] flush_sink)))
      (cycle (tasks (content (streamer [failing_first] flush_sink)) ! 0)) = Inl (Error ''boom'')"
    by (simp add: content_def streamer_def spawn_def failing_first_def)
  have "timer (tasks after_error ! 0) = None \<and> step (TaskTimer 0) after_error = None"
    using C1_error_disarms_timer [OF after_error_step g after_error_ticks] by simp
  moreover have "Generate failing_first False 0 = Inl (Error ''boom'')" "RunEvery failing_first 0 = 5"
    by (simp_all add: failing_first_def)
  ultimately show ?thesis using after_error_step after_error_ticks by simp
qed

subsection \<open>C2: cancellation\<close>

text \<open>
  C2 says that after the cancellation a task suspended in its send on the full channel is
  unblocked and the wait for all tasks completes. The send of line 150 is not part of a
  select. With two generators: both generate, the context is cancelled, \<^verbatim>\<open>stream\<close>
  returns, the first goroutine fills the channel. In every state that any further run
  reaches, the second goroutine is still at its send, the send cannot proceed, and
  \<^verbatim>\<open>wg.Wait()\<close> cannot return.
\<close>

theorem C2_send_blocks_after_cancel:
  assumes "run ([StreamStart, TaskTimer 0, TaskTimer 1, Cancel, StreamDone, TaskSend 0] @ as)
     (content (streamer [periodic, periodic] flush_sink)) = Some s"
  shows "ctx_done s \<and> main s = AtWait \<and> loc (tasks s ! 1) = AtSend tick_event
    \<and> step (TaskSend 1) s = None \<and> step WaitClose s = None"
proof -
  from assms have "run as deadlocked = Some s"
    by (simp only: run_append deadlocked_run option.case)
  moreover have "stuck 1 tick_event deadlocked"
    by (simp add: stuck_def deadlocked_def)
  ultimately have "stuck 1 tick_event s"
    by (rule run_invariant) (rule stuck_step)
  then show ?thesis
    by (auto simp: stuck_def task_send_def wait_close_def list_all_iff dest: nth_mem)
qed

theorem C2_send_blocks_after_cancel_witness:
  "run ([StreamStart, TaskTimer 0, TaskTimer 1, Cancel, StreamDone, TaskSend 0] @ [])
     (content (streamer [periodic, periodic] flush_sink)) = Some deadlocked
   \<and> ctx_done deadlocked \<and> main deadlocked = AtWait
   \<and> loc (tasks deadlocked ! 1) = AtSend tick_event
   \<and> step (TaskSend 1) deadlocked = None \<and> step WaitClose deadlocked = None"
proof -
  have r: "run ([StreamStart, TaskTimer 0, TaskTimer 1, Cancel, StreamDone, TaskSend 0] @ [])
     (content (streamer [periodic, periodic] flush_sink)) = Some deadlocked"
    using deadlocked_run by simp
  from C2_send_blocks_after_cancel [OF r] r show ?thesis by simp
qed

subsection \<open>C3: a sink without a flusher\<close>

text \<open>
  C3 as stated (an error of the service-unavailable class and zero bytes of body) fails:
  the answer is written by \<^verbatim>\<open>http.Error\<close> with status 500, and its body is the
  message.
\<close>

theorem C3_counterexample:
  "\<not> flusher plain_sink
   \<and> ops (fst (stream_start plain_sink)) =
       [SetHeader ''Content-Type'' ''text/plain; charset=utf-8'',
        SetHeader ''X-Content-Type-Options'' ''nosniff'',
        WriteHeader 500,
        Write ''server sent events are unsupported\<newline>'']
   \<and> body (fst (stream_start plain_sink)) \<noteq> []
   \<and> StatusServiceUnavailable \<noteq> 500"
  by (simp add: plain_sink_def stream_start_def http_Error_def body_def
      StatusInternalServerError_def StatusServiceUnavailable_def)

text \<open>
  C3, amended: for every sink without a flusher, \<^verbatim>\<open>stream\<close> never enters its loop;
  the sink receives nothing but the answer of \<^verbatim>\<open>http.Error\<close> with the message
  "server sent events are unsupported" and status 500, whose body is that message and a
  newline; no event and no event-stream header is written.
\<close>

theorem C3_sink_without_flusher:
  assumes "\<not> flusher (w cs)" and "run as (content cs) = Some s"
  shows "main s \<noteq> InStreamLoop
    \<and> sink s = (if main s = AtWait \<or> main s = Returned None
                then http_Error (w cs) ''server sent events are unsupported'' 500 else w cs)
    \<and> body (http_Error (w cs) ''server sent events are unsupported'' 500) =
        body (w cs) @ ''server sent events are unsupported\<newline>''"
proof -
  have "inv_nofl cs s"
    using assms(2) inv_nofl_content[OF assms(1)] inv_nofl_step by (rule run_invariant)
  then show ?thesis
    by (simp add: inv_nofl_def unsupported_def StatusInternalServerError_def http_Error_def body_def)
qed

theorem C3_sink_without_flusher_witness:
  "\<not> flusher (w (streamer [once] plain_sink))
   \<and> run [StreamStart, TaskTimer 0] (content (streamer [once] plain_sink)) = Some refused
   \<and> main refused = AtWait
   \<and> body (sink refused) = ''server sent events are unsupported\<newline>''"
proof -
  have f: "\<not> flusher (w (streamer [once] plain_sink))" "w (streamer [once] plain_sink) = plain_sink"
    by (simp_all add: streamer_def plain_sink_def)
  have m: "main refused = AtWait" "body plain_sink = []"
    by (simp_all add: refused_def plain_sink_def body_def)
  from C3_sink_without_flusher [OF f(1) refused_run] f refused_run m show ?thesis by simp
qed

subsection \<open>C4: the checks of the configuration\<close>

text \<open>
  C4 as stated (at least one generator is required) fails: the check is against
  \<^verbatim>\<open>nil\<close>, and an empty slice that is not \<^verbatim>\<open>nil\<close> passes. \<^verbatim>\<open>content\<close>
  then starts no goroutine, runs \<^verbatim>\<open>stream\<close> and returns no error.
\<close>

theorem C4_counterexample:
  "eventGenerators (streamer [] flush_sink) = Some []
   \<and> main (content (streamer [] flush_sink)) = InStream
   \<and> tasks (content (streamer [] flush_sink)) = []
   \<and> map_option main (run [StreamStart, Cancel, StreamDone, WaitClose]
        (content (streamer [] flush_sink))) = Some (Returned None)"
  by (simp add: content_def streamer_def step_defs flush_sink_def)

text \<open>
  C4, amended: \<^verbatim>\<open>content\<close> returns an error exactly when the slice of generators is
  \<^verbatim>\<open>nil\<close>, or else the stream function is \<^verbatim>\<open>nil\<close>, or else the logger is
  \<^verbatim>\<open>nil\<close>, with the message of the first check that fails; then no goroutine has
  been started; and in every state of every run, a returned error is that error, there
  is no goroutine and the sink is untouched.
\<close>

theorem C4_configuration_errors:
  "main (content cs) =
     (if eventGenerators cs = None
      then Returned (Some (Error ''event generators are not configured''))
      else if streamFn cs = None
      then Returned (Some (Error ''stream function is not configured''))
      else if logger cs = None
      then Returned (Some (Error ''logger is not configured''))
      else InStream)
   \<and> (main (content cs) \<noteq> InStream \<longrightarrow> tasks (content cs) = [])
   \<and> (run as (content cs) = Some s \<and> main s = Returned (Some err) \<longrightarrow>
        main (content cs) = Returned (Some err) \<and> tasks s = [] \<and> sink s = w cs)"
proof -
  have a: "main (content cs) =
     (if eventGenerators cs = None
      then Returned (Some (Error ''event generators are not configured''))
      else if streamFn cs = None
      then Returned (Some (Error ''stream function is not configured''))
      else if logger cs = None
      then Returned (Some (Error ''logger is not configured''))
      else InStream)"
    by (simp add: content_def Let_def split: option.splits)
  have b: "main (content cs) \<noteq> InStream \<longrightarrow> tasks (content cs) = []"
    by (simp add: content_def Let_def split: option.splits)
  have c: "main (content cs) = Returned (Some err) \<and> tasks s = [] \<and> sink s = w cs"
    if "run as (content cs) = Some s" "main s = Returned (Some err)"
  proof -
    have "inv_ret cs s"
      using that(1) inv_ret_content inv_ret_step by (rule run_invariant)
    with that(2) show ?thesis by (simp add: inv_ret_def)
  qed
  from a b c show ?thesis by blast
qed

theorem C4_configuration_errors_witness:
  "main (content unconfigured) = Returned (Some (Error ''event generators are not configured''))
   \<and> tasks (content unconfigured) = []
   \<and> run [Cancel, Tick] (content unconfigured) = Some ((content unconfigured)\<lparr>ctx_done := True\<rparr>)
   \<and> sink ((content unconfigured)\<lparr>ctx_done := True\<rparr>) = w unconfigured"
proof -
  have e: "eventGenerators unconfigured = None"
    by (simp add: unconfigured_def)
  have r: "run [Cancel, Tick] (content unconfigured) = Some ((content unconfigured)\<lparr>ctx_done := True\<rparr>)"
    by (simp add: content_def unconfigured_def)
  have m: "main ((content unconfigured)\<lparr>ctx_done := True\<rparr>) =
      Returned (Some (Error ''event generators are not configured''))"
    by (simp add: content_def unconfigured_def)
  from C4_configuration_errors [of unconfigured "[Cancel, Tick]"
      "(content unconfigured)\<lparr>ctx_done := True\<rparr>" "Error ''event generators are not configured''"]
    e r m
  show ?thesis by simp
qed

subsection \<open>C5: the bytes of a record\<close>

text \<open>
  C5: the event named "navigation" with payload \<^verbatim>\<open>{"sections":[]}\<close> and the unnamed
  event with payload \<^verbatim>\<open>{"content":{}}\<close> are written as the claim says; a record
  begins with the line of the name exactly when the name is not empty; and every record
  ends with the data line and a blank line.
\<close>

theorem C5_encode_records:
  \<open>encode \<lparr>name = ''navigation'', data = ''{"sections":[]}''\<rparr> =
     ''event: navigation\<newline>data: {"sections":[]}\<newline>\<newline>''
   \<and> encode \<lparr>name = [], data = ''{"content":{}}''\<rparr> = ''data: {"content":{}}\<newline>\<newline>''
   \<and> ((\<exists>rest. encode e = ''event: '' @ name e @ ''\<newline>'' @ rest) = (name e \<noteq> []))
   \<and> (\<exists>pre. encode e = pre @ ''data: '' @ data e @ ''\<newline>\<newline>'')\<close>
proof -
  have a: \<open>encode \<lparr>name = ''navigation'', data = ''{"sections":[]}''\<rparr> =
     ''event: navigation\<newline>data: {"sections":[]}\<newline>\<newline>''\<close>
    by (simp add: encode_def stream_event_def)
  have b: \<open>encode \<lparr>name = [], data = ''{"content":{}}''\<rparr> = ''data: {"content":{}}\<newline>\<newline>''\<close>
    by (simp add: encode_def stream_event_def)
  have c: "(\<exists>rest. encode e = ''event: '' @ name e @ ''\<newline>'' @ rest) = (name e \<noteq> [])"
    by (simp add: encode_eq)
  have d: "\<exists>pre. encode e = pre @ ''data: '' @ data e @ ''\<newline>\<newline>''"
    by (simp add: encode_eq)
  from a b c d show ?thesis by blast
qed

subsection \<open>C6: the channel is closed last\<close>

text \<open>
  C6: in every state of every run, no send on a closed channel has happened; when the
  channel is closed every goroutine has left its loop and no send can be attempted; the
  channel is closed exactly when \<^verbatim>\<open>content\<close> has returned without error; and with a
  valid configuration \<^verbatim>\<open>content\<close> returns nothing but \<^verbatim>\<open>nil\<close>.
\<close>

theorem C6_close_after_tasks:
  assumes "run as (content cs) = Some s"
  shows "\<not> panicked s
    \<and> (closed s \<longrightarrow> list_all (\<lambda>t. loc t = Exited) (tasks s) \<and> step (TaskSend i) s = None)
    \<and> (closed s \<longleftrightarrow> main s = Returned None)
    \<and> (config_ok cs \<and> main s = Returned r \<longrightarrow> r = None)"
proof -
  have c: "inv_closed s"
    using assms inv_closed_content inv_closed_step by (rule run_invariant)
  have r: "inv_ret cs s"
    using assms inv_ret_content inv_ret_step by (rule run_invariant)
  have 1: "\<not> panicked s" "closed s \<longleftrightarrow> main s = Returned None"
    "closed s \<longrightarrow> list_all (\<lambda>t. loc t = Exited) (tasks s)"
    using c by (simp_all add: inv_closed_def)
  have 2: "closed s \<longrightarrow> step (TaskSend i) s = None"
    using 1(3) by (auto simp: task_send_def list_all_iff Let_def split: tpc.splits dest: nth_mem)
  have 3: "config_ok cs \<and> main s = Returned r \<longrightarrow> r = None"
    using r by (cases r) (auto simp: inv_ret_def config_ok_def content_def Let_def split: option.splits if_splits)
  from 1 2 3 show ?thesis by blast
qed

theorem C6_close_after_tasks_witness:
  "run [StreamStart, TaskTimer 0, TaskSend 0, StreamRecv, Cancel, StreamDone, WaitClose]
     (content (streamer [once] flush_sink)) = Some shut_down
   \<and> config_ok (streamer [once] flush_sink)
   \<and> closed shut_down \<and> main shut_down = Returned None \<and> \<not> panicked shut_down
   \<and> list_all (\<lambda>t. loc t = Exited) (tasks shut_down)
   \<and> step (TaskSend 0) shut_down = None"
proof -
  have r: "run [StreamStart, TaskTimer 0, TaskSend 0, StreamRecv, Cancel, StreamDone, WaitClose]
     (content (streamer [once] flush_sink)) = Some shut_down"
    using run_append [of "[StreamStart, TaskTimer 0, TaskSend 0, StreamRecv]"
        "[Cancel, StreamDone, WaitClose]" "content (streamer [once] flush_sink)"]
    by (simp only: delivered_run shut_down_run option.case append.simps)
  have c: "config_ok (streamer [once] flush_sink)" "closed shut_down"
    "main shut_down = Returned None"
    by (simp_all add: config_ok_def streamer_def shut_down_def)
  from C6_close_after_tasks [OF r, of 0 None] r c show ?thesis by blast
qed

subsection \<open>C7: interval zero\<close>

text \<open>
  C7 says that the task of a generator with interval 0 terminates after its first
  generation, successful or failed. After a failed generation the code does not ask for
  the interval (the \<^verbatim>\<open>break\<close> of C1): with the generator \<open>failing_once\<close>, in
  every state of every run in which the context is not cancelled the goroutine is at
  its select, after its first cycle without a timer and unable to generate, and
  \<^verbatim>\<open>content\<close> has not returned.
\<close>

theorem C7_failed_run_once_keeps_waiting:
  assumes "run as (content (streamer [failing_once] flush_sink)) = Some s" and "\<not> ctx_done s"
  shows "RunEvery failing_once (cycle (tasks s ! 0)) = 0
    \<and> loc (tasks s ! 0) = AtSelect
    \<and> (0 < cycle (tasks s ! 0) \<longrightarrow> timer (tasks s ! 0) = None \<and> step (TaskTimer 0) s = None)
    \<and> main s \<noteq> Returned None"
proof -
  have "waiting s"
    using assms(1) waiting_content waiting_step by (rule run_invariant)
  with assms(2) show ?thesis
    by (auto simp: waiting_def failing_once_def task_timer_def)
qed

theorem C7_failed_run_once_keeps_waiting_witness:
  "run [TaskTimer 0, Tick] (content (streamer [failing_once] flush_sink)) = Some failed_once_state
   \<and> \<not> ctx_done failed_once_state
   \<and> cycle (tasks failed_once_state ! 0) = 1
   \<and> loc (tasks failed_once_state ! 0) = AtSelect
   \<and> step (TaskTimer 0) failed_once_state = None"
proof -
  have c: "\<not> ctx_done failed_once_state" "cycle (tasks failed_once_state ! 0) = 1"
    by (simp_all add: failed_once_state_def)
  from C7_failed_run_once_keeps_waiting [OF failed_once_run c(1)] c failed_once_run
  show ?thesis by simp
qed

subsection \<open>C8: the loop of stream and the cancellation\<close>

text \<open>
  C8 as stated (no event is written after the cancellation) fails: with the context
  cancelled and an event in the channel, both cases of the select of \<^verbatim>\<open>stream\<close> are
  ready, and the case of the channel writes the event.
\<close>

theorem C8_counterexample:
  "run [TaskTimer 0, TaskSend 0, Cancel, StreamStart] (content (streamer [once] flush_sink)) =
     Some pending
   \<and> ctx_done pending \<and> body (sink pending) = []
   \<and> map_option (body \<circ> sink) (step StreamRecv pending) = Some ''data: {}\<newline>\<newline>''"
proof -
  have "ctx_done pending" "body (sink pending) = []"
    by (simp_all add: pending_def body_def stream_headers_def)
  moreover have "map_option (body \<circ> sink) (step StreamRecv pending) = Some ''data: {}\<newline>\<newline>''"
    by (simp add: pending_def stream_recv_def body_def stream_headers_def stream_event_def
        tick_event_def)
  ultimately show ?thesis using pending_run by simp
qed

text \<open>
  C8, amended: once the context is cancelled, the case that leaves the loop of
  \<^verbatim>\<open>stream\<close> is enabled whatever the channel holds; and once \<^verbatim>\<open>stream\<close> has
  returned, no run changes the sink any more.
\<close>

theorem C8_exit_enabled_then_silent:
  "(ctx_done s \<and> main s = InStreamLoop \<and> \<not> panicked s \<longrightarrow>
      step StreamDone s = Some (s\<lparr>main := AtWait\<rparr>))
   \<and> (main t \<noteq> InStream \<and> main t \<noteq> InStreamLoop \<and> run as t = Some t' \<longrightarrow>
      sink t' = sink t \<and> main t' \<noteq> InStream \<and> main t' \<noteq> InStreamLoop)"
proof -
  have a: "ctx_done s \<and> main s = InStreamLoop \<and> \<not> panicked s \<longrightarrow>
      step StreamDone s = Some (s\<lparr>main := AtWait\<rparr>)"
    by (simp add: stream_done_def)
  have b: "sink t' = sink t \<and> main t' \<noteq> InStream \<and> main t' \<noteq> InStreamLoop"
    if r: "run as t = Some t'" and m: "main t \<noteq> InStream \<and> main t \<noteq> InStreamLoop"
  proof -
    have "sink t = sink t \<and> main t \<noteq> InStream \<and> main t \<noteq> InStreamLoop" using m by simp
    with r show ?thesis
    proof (rule run_invariant [where P = "\<lambda>u. sink u = sink t \<and> main u \<noteq> InStream \<and> main u \<noteq> InStreamLoop"])
      fix a u u'
      assume "sink u = sink t \<and> main u \<noteq> InStream \<and> main u \<noteq> InStreamLoop" "step a u = Some u'"
      then show "sink u' = sink t \<and> main u' \<noteq> InStream \<and> main u' \<noteq> InStreamLoop"
        by (cases a)
           (auto simp: step_defs Let_def
              split: if_splits sum.splits tpc.splits list.splits prod.splits)
    qed
  qed
  from a b show ?thesis by blast
qed

theorem C8_exit_enabled_then_silent_witness:
  "ctx_done pending \<and> main pending = InStreamLoop \<and> \<not> panicked pending \<and> ch pending \<noteq> []
   \<and> step StreamDone pending = Some (pending\<lparr>main := AtWait\<rparr>)
   \<and> run [Tick, WaitClose] (pending\<lparr>main := AtWait\<rparr>) =
       Some (pending\<lparr>closed := True, main := Returned None\<rparr>)
   \<and> sink (pending\<lparr>closed := True, main := Returned None\<rparr>) = sink (pending\<lparr>main := AtWait\<rparr>)"
proof -
  have p: "ctx_done pending" "main pending = InStreamLoop" "\<not> panicked pending" "ch pending \<noteq> []"
    by (simp_all add: pending_def)
  have r: "run [Tick, WaitClose] (pending\<lparr>main := AtWait\<rparr>) =
       Some (pending\<lparr>closed := True, main := Returned None\<rparr>)"
    by (simp add: pending_def wait_close_def tick_def)
  have m: "main (pending\<lparr>main := AtWait\<rparr>) \<noteq> InStream" "main (pending\<lparr>main := AtWait\<rparr>) \<noteq> InStreamLoop"
    by simp_all
  from C8_exit_enabled_then_silent [of pending "pending\<lparr>main := AtWait\<rparr>" "[Tick, WaitClose]"
      "pending\<lparr>closed := True, main := Returned None\<rparr>"] p r m
  show ?thesis by simp
qed

subsection \<open>C9: the headers\<close>

text \<open>
  C9: on a sink with a flusher, in every state of every run, what \<^verbatim>\<open>stream\<close> has
  done to the sink is nothing before its start, and from then on the four headers, each
  set once, followed by writes and flushes only.
\<close>

theorem C9_headers_once:
  assumes "flusher (w cs)" and "run as (content cs) = Some s"
  shows "\<exists>rest. list_all is_output rest \<and>
     ops (sink s) = ops (w cs) @
       (if main s = InStreamLoop \<or> main s = AtWait \<or> main s = Returned None
        then [SetHeader ''Content-Type'' ''text/event-stream'',
              SetHeader ''Cache-Control'' ''no-cache'',
              SetHeader ''Connection'' ''keep-alive'',
              SetHeader ''Access-Control-Allow-Origin'' ''*''] @ rest
        else [])"
proof -
  have i: "inv_hdr cs s"
    using assms(2) inv_hdr_content[OF assms(1)] inv_hdr_step by (rule run_invariant)
  show ?thesis
  proof (cases "main s = InStreamLoop \<or> main s = AtWait \<or> main s = Returned None")
    case True
    then have "\<not> (main s = InStream \<or> (\<exists>e. main s = Returned (Some e)))" by auto
    with i obtain rest where "list_all is_output rest"
      "ops (sink s) = ops (w cs) @ stream_headers @ rest"
      unfolding inv_hdr_def by auto
    then show ?thesis using True by (auto simp: stream_headers_def)
  next
    case False
    then have "main s = InStream \<or> (\<exists>e. main s = Returned (Some e))"
      by (cases "main s") auto
    with i have "ops (sink s) = ops (w cs)" unfolding inv_hdr_def by auto
    then show ?thesis using False by (intro exI[of _ "[]"]) simp
  qed
qed

theorem C9_headers_once_witness:
  "flusher (w (streamer [once] flush_sink))
   \<and> run [StreamStart, TaskTimer 0, TaskSend 0, StreamRecv] (content (streamer [once] flush_sink)) =
       Some delivered
   \<and> main delivered = InStreamLoop
   \<and> (\<exists>rest. list_all is_output rest \<and>
        ops (sink delivered) =
          [SetHeader ''Content-Type'' ''text/event-stream'',
           SetHeader ''Cache-Control'' ''no-cache'',
           SetHeader ''Connection'' ''keep-alive'',
           SetHeader ''Access-Control-Allow-Origin'' ''*''] @ rest)"
proof -
  have f: "flusher (w (streamer [once] flush_sink))" "ops (w (streamer [once] flush_sink)) = []"
    by (simp_all add: streamer_def flush_sink_def)
  have m: "main delivered = InStreamLoop"
    by (simp add: delivered_def)
  from C9_headers_once [OF f(1) delivered_run] f delivered_run m show ?thesis by simp
qed

subsection \<open>C10: name and payload are written as they are\<close>

text \<open>
  C10 as stated (every payload with a newline byte gives a premature blank line) fails:
  the payload "a", newline, "b" has a line break inside the data field and no blank line
  before the end of the record.
\<close>

theorem C10_counterexample:
  "CHR 0x0A \<in> set (data \<lparr>name = [], data = ''a\<newline>b''\<rparr>)
   \<and> encode \<lparr>name = [], data = ''a\<newline>b''\<rparr> = ''data: a\<newline>b\<newline>\<newline>''
   \<and> \<not> premature_boundary (encode \<lparr>name = [], data = ''a\<newline>b''\<rparr>)"
  by (simp add: premature_boundary_def encode_def stream_event_def)

text \<open>
  C10, amended: the case of the channel appends to the body exactly the bytes of the
  record, which are the line of the name (for a name that is not empty), then "data: ",
  the payload and two newlines, with nothing escaped; a payload with a newline byte
  gives a line break inside the data field; and the record has a blank line before its
  end exactly when the name or the payload, followed by the newline that ends its line,
  holds two newline bytes in a row.
\<close>

theorem C10_verbatim_bytes:
  "(step StreamRecv s = Some s' \<longrightarrow>
      (\<exists>e' es. ch s = e' # es \<and> ch s' = es \<and> body (sink s') = body (sink s) @ encode e'))
   \<and> encode e = (if name e = [] then [] else ''event: '' @ name e @ ''\<newline>'') @
       ''data: '' @ data e @ ''\<newline>\<newline>''
   \<and> (CHR 0x0A \<in> set (data e) \<longrightarrow>
       (\<exists>pre a b. data e = a @ ''\<newline>'' @ b \<and>
          encode e = pre @ ''data: '' @ a @ ''\<newline>'' @ b @ ''\<newline>\<newline>''))
   \<and> premature_boundary (encode e) =
       (blank_line (name e @ ''\<newline>'') \<or> blank_line (data e @ ''\<newline>''))"
proof -
  have a: "step StreamRecv s = Some s' \<longrightarrow>
      (\<exists>e' es. ch s = e' # es \<and> ch s' = es \<and> body (sink s') = body (sink s) @ encode e')"
    by (auto simp: stream_recv_def body_def encode_def split: if_splits list.splits)
  have c: "\<exists>pre a b. data e = a @ ''\<newline>'' @ b \<and>
          encode e = pre @ ''data: '' @ a @ ''\<newline>'' @ b @ ''\<newline>\<newline>''"
    if "CHR 0x0A \<in> set (data e)"
  proof -
    from that obtain a b where d: "data e = a @ CHR 0x0A # b"
      by (auto dest: split_list)
    show ?thesis
      by (rule exI [of _ "if name e = [] then [] else ''event: '' @ name e @ ''\<newline>''"],
          rule exI [of _ a], rule exI [of _ b])
         (simp add: encode_eq d)
  qed
  from a c encode_eq [of e] premature_encode [of e] show ?thesis by blast
qed

theorem C10_verbatim_bytes_witness:
  "step StreamRecv pending = Some (pending\<lparr>ch := [], sink := (sink pending)\<lparr>ops := stream_headers @ stream_event tick_event\<rparr>\<rparr>)
   \<and> CHR 0x0A \<in> set (data \<lparr>name = [], data = ''a\<newline>''\<rparr>)
   \<and> encode \<lparr>name = [], data = ''a\<newline>''\<rparr> = ''data: a\<newline>\<newline>\<newline>''
   \<and> premature_boundary (encode \<lparr>name = [], data = ''a\<newline>''\<rparr>)"
proof -
  have s: "step StreamRecv pending = Some (pending\<lparr>ch := [], sink := (sink pending)\<lparr>ops := stream_headers @ stream_event tick_event\<rparr>\<rparr>)"
    by (simp add: pending_def stream_recv_def)
  have n: "CHR 0x0A \<in> set (data \<lparr>name = [], data = ''a\<newline>''\<rparr>)"
    by simp
  have b: "blank_line (data \<lparr>name = [], data = ''a\<newline>''\<rparr> @ ''\<newline>'')"
    by simp
  have c: "encode \<lparr>name = [], data = ''a\<newline>''\<rparr> = ''data: a\<newline>\<newline>\<newline>''"
    by (simp add: encode_def stream_event_def)
  from C10_verbatim_bytes [of pending "pending\<lparr>ch := [], sink := (sink pending)\<lparr>ops := stream_headers @ stream_event tick_event\<rparr>\<rparr>"
      "\<lparr>name = [], data = ''a\<newline>''\<rparr>"] b
  have "premature_boundary (encode \<lparr>name = [], data = ''a\<newline>''\<rparr>)"
    by blast
  with s n c show ?thesis by blast
qed

end
